theory Spec2Isabelle
  imports Main "HOL-Library.AList" "HOL-Library.Char_ord" "HOL-Library.List_Lexorder"
    "HOL-Library.Multiset"
begin

chapter \<open>The program\<close>

text \<open>
  Two packages of the compiler: \<^verbatim>\<open>clouds\<close>, a pair of lookup tables for the cloud
  architectures, and \<^verbatim>\<open>core\<close>, whose \<^verbatim>\<open>inOrderVisitor\<close> walks a stack in a fixed order and
  calls up to two observers on every record. The Go code changes records through
  pointers; here every method takes the record and the observers' state and returns both.
\<close>

section \<open>The cloud architecture tables (pkg/compiler/clouds/clouds.go)\<close>

text \<open>
  \<^verbatim>\<open>Arch\<close> is an integer enumeration built with \<^verbatim>\<open>iota\<close>; the five tags are the only
  values the tables mention.
\<close>

datatype Arch = NoArch | AWSArch | GCPArch | AzureArch | VMWareArch

definition noArch :: string where "noArch = ''''"
definition awsArch :: string where "awsArch = ''aws''"
definition gcpArch :: string where "gcpArch = ''gcp''"
definition azureArch :: string where "azureArch = ''azure''"
definition vmwareArch :: string where "vmwareArch = ''vmware''"

text \<open>
  The two package-level map literals, as partial maps: which keys they have, and what is
  stored there.
\<close>

definition ArchMap :: "string \<rightharpoonup> Arch" where
  "ArchMap = map_of
     [(noArch, NoArch), (awsArch, AWSArch), (gcpArch, GCPArch),
      (azureArch, AzureArch), (vmwareArch, VMWareArch)]"

definition ArchNames :: "Arch \<rightharpoonup> string" where
  "ArchNames = map_of
     [(NoArch, noArch), (AWSArch, awsArch), (GCPArch, gcpArch),
      (AzureArch, azureArch), (VMWareArch, vmwareArch)]"

text \<open>
  The index expressions \<^verbatim>\<open>ArchMap[n]\<close> and \<^verbatim>\<open>ArchNames[a]\<close>: for a key that is missing Go
  answers with the zero value of the element type, which is \<^verbatim>\<open>NoArch\<close> (the \<^verbatim>\<open>iota\<close> of
  value 0) for an \<^verbatim>\<open>Arch\<close> and the empty string for a string.
\<close>

definition ArchMap_at :: "string \<Rightarrow> Arch" where
  "ArchMap_at n = (case ArchMap n of Some a \<Rightarrow> a | None \<Rightarrow> NoArch)"

definition ArchNames_at :: "Arch \<Rightarrow> string" where
  "ArchNames_at a = (case ArchNames a of Some n \<Rightarrow> n | None \<Rightarrow> [])"

section \<open>The record graph (package ast, as far as the visitor touches it)\<close>

text \<open>
  A Go map is kept as an association list: the order of the list stands for the order in
  which \<^verbatim>\<open>range\<close> happens to yield the entries, which Go leaves unspecified. A well-formed
  map has pairwise distinct keys.
\<close>

type_synonym 'v gomap = "(string \<times> 'v) list"

definition wf_map :: "'v gomap \<Rightarrow> bool" where
  "wf_map m = distinct (map fst m)"

text \<open>\<^verbatim>\<open>for k := range m { ks = append(ks, k) }\<close>\<close>

definition range_keys :: "'v gomap \<Rightarrow> string list" where
  "range_keys m = map fst m"

text \<open>
  \<^verbatim>\<open>m[k]\<close> as an expression: the value stored at \<open>k\<close>, and the zero value of the element
  type when the key is missing.
\<close>

definition index :: "('v::zero) gomap \<Rightarrow> string \<Rightarrow> 'v" where
  "index m k = (case map_of m k of Some v \<Rightarrow> v | None \<Rightarrow> 0)"

text \<open>\<^verbatim>\<open>m[k] = v\<close>: overwrite the entry of an existing key, add the entry otherwise.\<close>

definition assign :: "'v gomap \<Rightarrow> string \<Rightarrow> 'v \<Rightarrow> 'v gomap" where
  "assign m k v = AList.update k v m"

text \<open>
  \<^verbatim>\<open>sort.Strings\<close>: ascending order of Go's \<^verbatim>\<open><\<close> on strings, which compares byte by
  byte (and a proper prefix is smaller). That is the lexicographic order of \<open>char list\<close>.
\<close>

definition sort_Strings :: "string list \<Rightarrow> string list" where
  "sort_Strings ks = sort ks"

text \<open>
  Modelled from the spec: package \<^verbatim>\<open>ast\<close> is not part of the sources at hand. The leaf
  records (Parameter, Dependency, Service, Target) stay type parameters \<open>'p\<close>, \<open>'d\<close>,
  \<open>'s\<close>, \<open>'t\<close>; the containers have the fields the visitor reads and writes.
\<close>

record 't Metadata =
  Targets :: "'t gomap"

record 's Services =
  Public :: "'s gomap"
  Private :: "'s gomap"

record ('p, 'd, 's, 't) Stack =
  Metadata :: "'t Metadata"
  Parameters :: "'p gomap"
  Dependencies :: "'d gomap"
  Services :: "'s Services"

section \<open>The Visitor interface (pkg/compiler/core/visitor.go)\<close>

text \<open>
  An observer receives a pointer to a record and may change the record through it; it also
  has state of its own (a log, a diagnostics sink). Both are explicit: a method takes the
  record and the observers' state \<open>'w\<close> and returns both. The state is one value for both
  observers, so that they may share it (a common log) or be the same object. An observer
  does not keep the pointer once the call has returned, so the record it is handed is all
  of the graph it can change in that call. The document \<open>'doc\<close> is passed through to every
  call and never looked at.

  Modelled from the spec: the embedded interface \<^verbatim>\<open>Phase\<close> and package \<^verbatim>\<open>diag\<close> are not part
  of the sources at hand. \<^verbatim>\<open>Phase\<close> contributes the accessor \<^verbatim>\<open>Diag\<close>, which returns the
  sink the observer reports through; a \<^verbatim>\<open>diag.Sink\<close> is an interface value, so it may be
  nil (\<open>None\<close>).
\<close>

record ('doc, 'p, 'd, 's, 't, 'k, 'w) Visitor =
  Diag :: "'w \<Rightarrow> 'k option"
  VisitMetadata :: "'doc \<Rightarrow> string \<Rightarrow> 't Metadata \<Rightarrow> 'w \<Rightarrow> 't Metadata \<times> 'w"
  VisitStack :: "'doc \<Rightarrow> ('p, 'd, 's, 't) Stack \<Rightarrow> 'w \<Rightarrow> ('p, 'd, 's, 't) Stack \<times> 'w"
  VisitParameter :: "'doc \<Rightarrow> string \<Rightarrow> 'p \<Rightarrow> 'w \<Rightarrow> 'p \<times> 'w"
  VisitDependency :: "'doc \<Rightarrow> string \<Rightarrow> 'd \<Rightarrow> 'w \<Rightarrow> 'd \<times> 'w"
  VisitServices :: "'doc \<Rightarrow> 's Services \<Rightarrow> 'w \<Rightarrow> 's Services \<times> 'w"
  VisitService :: "'doc \<Rightarrow> string \<Rightarrow> bool \<Rightarrow> 's \<Rightarrow> 'w \<Rightarrow> 's \<times> 'w"
  VisitTarget :: "'doc \<Rightarrow> string \<Rightarrow> 't \<Rightarrow> 'w \<Rightarrow> 't \<times> 'w"

text \<open>\<^verbatim>\<open>inOrderVisitor\<close>: the two wrapped observers, either of which may be nil.\<close>

record ('doc, 'p, 'd, 's, 't, 'k, 'w) inOrderVisitor =
  pre :: "('doc, 'p, 'd, 's, 't, 'k, 'w) Visitor option"
  post :: "('doc, 'p, 'd, 's, 't, 'k, 'w) Visitor option"

definition NewInOrderVisitor ::
  "('doc, 'p, 'd, 's, 't, 'k, 'w) Visitor option \<Rightarrow> ('doc, 'p, 'd, 's, 't, 'k, 'w) Visitor option
    \<Rightarrow> ('doc, 'p, 'd, 's, 't, 'k, 'w) inOrderVisitor" where
  "NewInOrderVisitor p q = \<lparr>pre = p, post = q\<rparr>"

definition inOrderVisitor_Diag ::
  "('doc, 'p, 'd, 's, 't, 'k, 'w) inOrderVisitor \<Rightarrow> 'w \<Rightarrow> 'k option" where
  "inOrderVisitor_Diag v w =
     (case pre v of
        Some p \<Rightarrow> Diag p w
      | None \<Rightarrow> (case post v of Some q \<Rightarrow> Diag q w | None \<Rightarrow> None))"

text \<open>
  \<^verbatim>\<open>if o != nil { o.VisitX(..., rec) }\<close>: the guarded call of one hook on a record. With a
  nil observer nothing is called and record and state stay as they are.
\<close>

definition hook :: "'o option \<Rightarrow> ('o \<Rightarrow> 'r \<Rightarrow> 'w \<Rightarrow> 'r \<times> 'w) \<Rightarrow> 'r \<Rightarrow> 'w \<Rightarrow> 'r \<times> 'w" where
  "hook ob m r w = (case ob of None \<Rightarrow> (r, w) | Some o' \<Rightarrow> m o' r w)"

text \<open>The four leaf methods: the pre hook, then the post hook, on the same record.\<close>

definition inOrderVisitor_VisitParameter ::
  "('doc, 'p, 'd, 's, 't, 'k, 'w) inOrderVisitor \<Rightarrow> 'doc \<Rightarrow> string \<Rightarrow> 'p \<Rightarrow> 'w \<Rightarrow> 'p \<times> 'w" where
  "inOrderVisitor_VisitParameter v doc name param w =
     (let (param, w) = hook (pre v) (\<lambda>p. VisitParameter p doc name) param w
      in hook (post v) (\<lambda>q. VisitParameter q doc name) param w)"

definition inOrderVisitor_VisitDependency ::
  "('doc, 'p, 'd, 's, 't, 'k, 'w) inOrderVisitor \<Rightarrow> 'doc \<Rightarrow> string \<Rightarrow> 'd \<Rightarrow> 'w \<Rightarrow> 'd \<times> 'w" where
  "inOrderVisitor_VisitDependency v doc name dep w =
     (let (dep, w) = hook (pre v) (\<lambda>p. VisitDependency p doc name) dep w
      in hook (post v) (\<lambda>q. VisitDependency q doc name) dep w)"

definition inOrderVisitor_VisitService ::
  "('doc, 'p, 'd, 's, 't, 'k, 'w) inOrderVisitor \<Rightarrow> 'doc \<Rightarrow> string \<Rightarrow> bool \<Rightarrow> 's \<Rightarrow> 'w \<Rightarrow> 's \<times> 'w" where
  "inOrderVisitor_VisitService v doc name public svc w =
     (let (svc, w) = hook (pre v) (\<lambda>p. VisitService p doc name public) svc w
      in hook (post v) (\<lambda>q. VisitService q doc name public) svc w)"

definition inOrderVisitor_VisitTarget ::
  "('doc, 'p, 'd, 's, 't, 'k, 'w) inOrderVisitor \<Rightarrow> 'doc \<Rightarrow> string \<Rightarrow> 't \<Rightarrow> 'w \<Rightarrow> 't \<times> 'w" where
  "inOrderVisitor_VisitTarget v doc name target w =
     (let (target, w) = hook (pre v) (\<lambda>p. VisitTarget p doc name) target w
      in hook (post v) (\<lambda>q. VisitTarget q doc name) target w)"

text \<open>
  The loop that the source writes out five times:
  \<^verbatim>\<open>for _, name := range names { x := m[name]; v.VisitX(doc, name, &x); m[name] = x }\<close>.
  The visit gets a pointer to the local copy \<open>x\<close>, so it returns the new value of \<open>x\<close> (and
  the observers' state); the map itself changes only through the assignment that follows.
\<close>

fun visit_each ::
  "(string \<Rightarrow> 'v \<Rightarrow> 'w \<Rightarrow> 'v \<times> 'w) \<Rightarrow> string list \<Rightarrow> ('v::zero) gomap \<Rightarrow> 'w \<Rightarrow> 'v gomap \<times> 'w" where
  "visit_each visit [] m w = (m, w)"
| "visit_each visit (name # names) m w =
     (let x = index m name;
          (x, w) = visit name x w
      in visit_each visit names (assign m name x) w)"

definition inOrderVisitor_VisitMetadata ::
  "('doc, 'p, 'd, 's, 't::zero, 'k, 'w) inOrderVisitor \<Rightarrow> 'doc \<Rightarrow> string \<Rightarrow> 't Metadata \<Rightarrow> 'w
    \<Rightarrow> 't Metadata \<times> 'w" where
  "inOrderVisitor_VisitMetadata v doc kind meta w =
     (let (meta, w) = hook (pre v) (\<lambda>p. VisitMetadata p doc kind) meta w;
          targets = sort_Strings (range_keys (Targets meta));
          (ts, w) = visit_each (inOrderVisitor_VisitTarget v doc) targets (Targets meta) w;
          meta = meta\<lparr>Targets := ts\<rparr>
      in hook (post v) (\<lambda>q. VisitMetadata q doc kind) meta w)"

definition inOrderVisitor_VisitServices ::
  "('doc, 'p, 'd, 's::zero, 't, 'k, 'w) inOrderVisitor \<Rightarrow> 'doc \<Rightarrow> 's Services \<Rightarrow> 'w
    \<Rightarrow> 's Services \<times> 'w" where
  "inOrderVisitor_VisitServices v doc svcs w =
     (let publics = sort_Strings (range_keys (Public svcs));
          (pub, w) = visit_each (\<lambda>name. inOrderVisitor_VisitService v doc name True)
                       publics (Public svcs) w;
          svcs = svcs\<lparr>Public := pub\<rparr>;
          privates = sort_Strings (range_keys (Private svcs));
          (priv, w) = visit_each (\<lambda>name. inOrderVisitor_VisitService v doc name False)
                        privates (Private svcs) w
      in (svcs\<lparr>Private := priv\<rparr>, w))"

definition inOrderVisitor_VisitStack ::
  "('doc, 'p::zero, 'd::zero, 's::zero, 't::zero, 'k, 'w) inOrderVisitor \<Rightarrow> 'doc
    \<Rightarrow> ('p, 'd, 's, 't) Stack \<Rightarrow> 'w \<Rightarrow> ('p, 'd, 's, 't) Stack \<times> 'w" where
  "inOrderVisitor_VisitStack v doc stack w =
     (let (stack, w) = hook (pre v) (\<lambda>p. VisitStack p doc) stack w;
          (meta, w) = inOrderVisitor_VisitMetadata v doc ''Stack'' (Metadata stack) w;
          stack = stack\<lparr>Metadata := meta\<rparr>;
          params = sort_Strings (range_keys (Parameters stack));
          (ps, w) = visit_each (inOrderVisitor_VisitParameter v doc) params (Parameters stack) w;
          stack = stack\<lparr>Parameters := ps\<rparr>;
          deps = sort_Strings (range_keys (Dependencies stack));
          (ds, w) = visit_each (inOrderVisitor_VisitDependency v doc) deps (Dependencies stack) w;
          stack = stack\<lparr>Dependencies := ds\<rparr>;
          (svcs, w) = inOrderVisitor_VisitServices v doc (Services stack) w;
          stack = stack\<lparr>Services := svcs\<rparr>
      in hook (post v) (\<lambda>q. VisitStack q doc) stack w)"

chapter \<open>Notions used to state the properties\<close>

section \<open>Observers that record their calls\<close>

text \<open>
  The order of the calls is made visible by wrapping an observer so that, besides doing
  what the observer does, each of its methods appends an entry to a log: which of the two
  observers was called, which method, and with which kind tag or name.
\<close>

datatype caller = PreObserver | PostObserver

datatype event =
    MetadataEv string
  | StackEv
  | ParameterEv string
  | DependencyEv string
  | ServicesEv
  | ServiceEv string bool
  | TargetEv string

type_synonym log = "(caller \<times> event) list"

definition recorder ::
  "caller \<Rightarrow> ('doc, 'p, 'd, 's, 't, 'k, 'w) Visitor \<Rightarrow> ('doc, 'p, 'd, 's, 't, 'k, 'w \<times> log) Visitor" where
  "recorder c ob =
     \<lparr>Diag = (\<lambda>(w, l). Diag ob w),
      VisitMetadata = (\<lambda>doc kind meta (w, l).
         let (meta, w) = VisitMetadata ob doc kind meta w in (meta, (w, l @ [(c, MetadataEv kind)]))),
      VisitStack = (\<lambda>doc stack (w, l).
         let (stack, w) = VisitStack ob doc stack w in (stack, (w, l @ [(c, StackEv)]))),
      VisitParameter = (\<lambda>doc name param (w, l).
         let (param, w) = VisitParameter ob doc name param w in (param, (w, l @ [(c, ParameterEv name)]))),
      VisitDependency = (\<lambda>doc name dep (w, l).
         let (dep, w) = VisitDependency ob doc name dep w in (dep, (w, l @ [(c, DependencyEv name)]))),
      VisitServices = (\<lambda>doc svcs (w, l).
         let (svcs, w) = VisitServices ob doc svcs w in (svcs, (w, l @ [(c, ServicesEv)]))),
      VisitService = (\<lambda>doc name public svc (w, l).
         let (svc, w) = VisitService ob doc name public svc w
         in (svc, (w, l @ [(c, ServiceEv name public)]))),
      VisitTarget = (\<lambda>doc name target (w, l).
         let (target, w) = VisitTarget ob doc name target w in (target, (w, l @ [(c, TargetEv name)])))\<rparr>"

text \<open>The composed visitor whose observers record their calls in one shared log.\<close>

definition recording ::
  "('doc, 'p, 'd, 's, 't, 'k, 'w) inOrderVisitor \<Rightarrow> ('doc, 'p, 'd, 's, 't, 'k, 'w \<times> log) inOrderVisitor" where
  "recording v =
     NewInOrderVisitor (map_option (recorder PreObserver) (pre v))
                       (map_option (recorder PostObserver) (post v))"

text \<open>The calls a walk from \<^verbatim>\<open>VisitStack\<close> makes, in the order it makes them.\<close>

definition visit_log ::
  "('doc, 'p::zero, 'd::zero, 's::zero, 't::zero, 'k, 'w) inOrderVisitor \<Rightarrow> 'doc
    \<Rightarrow> ('p, 'd, 's, 't) Stack \<Rightarrow> 'w \<Rightarrow> log" where
  "visit_log v doc stack w = snd (snd (inOrderVisitor_VisitStack (recording v) doc stack (w, [])))"

text \<open>The calls a walk from \<^verbatim>\<open>VisitServices\<close> makes.\<close>

definition services_log ::
  "('doc, 'p, 'd, 's::zero, 't, 'k, 'w) inOrderVisitor \<Rightarrow> 'doc \<Rightarrow> 's Services \<Rightarrow> 'w \<Rightarrow> log" where
  "services_log v doc svcs w =
     snd (snd (inOrderVisitor_VisitServices (recording v) doc svcs (w, [])))"

text \<open>An observer all of whose methods are no-ops, and which has no sink.\<close>

definition idle :: "('doc, 'p, 'd, 's, 't, 'k, 'w) Visitor" where
  "idle =
     \<lparr>Diag = (\<lambda>w. None),
      VisitMetadata = (\<lambda>doc kind meta w. (meta, w)),
      VisitStack = (\<lambda>doc stack w. (stack, w)),
      VisitParameter = (\<lambda>doc name param w. (param, w)),
      VisitDependency = (\<lambda>doc name dep w. (dep, w)),
      VisitServices = (\<lambda>doc svcs w. (svcs, w)),
      VisitService = (\<lambda>doc name public svc w. (svc, w)),
      VisitTarget = (\<lambda>doc name target w. (target, w))\<rparr>"

text \<open>
  Classes of observers. \<open>leaf_only\<close>: the methods for the containers (\<^verbatim>\<open>VisitMetadata\<close>,
  \<^verbatim>\<open>VisitStack\<close>) leave the record they are handed as it is, so the observer changes
  leaves only. \<open>keeps_keys\<close>: those methods may change the container, but not the key set of
  any of its mappings. \<open>read_only\<close>: no method changes the record it is handed. The state
  of the observer is free in all three.
\<close>

definition leaf_only :: "('doc, 'p, 'd, 's, 't, 'k, 'w) Visitor \<Rightarrow> bool" where
  "leaf_only ob \<longleftrightarrow>
     (\<forall>doc kind meta w. fst (VisitMetadata ob doc kind meta w) = meta) \<and>
     (\<forall>doc stack w. fst (VisitStack ob doc stack w) = stack)"

definition keeps_keys :: "('doc, 'p, 'd, 's, 't, 'k, 'w) Visitor \<Rightarrow> bool" where
  "keeps_keys ob \<longleftrightarrow>
     (\<forall>doc kind meta w.
        set (range_keys (Targets (fst (VisitMetadata ob doc kind meta w))))
          = set (range_keys (Targets meta))) \<and>
     (\<forall>doc stack w. let stack' = fst (VisitStack ob doc stack w) in
        set (range_keys (Targets (Metadata stack'))) = set (range_keys (Targets (Metadata stack))) \<and>
        set (range_keys (Parameters stack')) = set (range_keys (Parameters stack)) \<and>
        set (range_keys (Dependencies stack')) = set (range_keys (Dependencies stack)) \<and>
        set (range_keys (Public (Services stack'))) = set (range_keys (Public (Services stack))) \<and>
        set (range_keys (Private (Services stack'))) = set (range_keys (Private (Services stack))))"

definition read_only :: "('doc, 'p, 'd, 's, 't, 'k, 'w) Visitor \<Rightarrow> bool" where
  "read_only ob \<longleftrightarrow>
     (\<forall>doc kind meta w. fst (VisitMetadata ob doc kind meta w) = meta) \<and>
     (\<forall>doc stack w. fst (VisitStack ob doc stack w) = stack) \<and>
     (\<forall>doc name param w. fst (VisitParameter ob doc name param w) = param) \<and>
     (\<forall>doc name dep w. fst (VisitDependency ob doc name dep w) = dep) \<and>
     (\<forall>doc svcs w. fst (VisitServices ob doc svcs w) = svcs) \<and>
     (\<forall>doc name public svc w. fst (VisitService ob doc name public svc w) = svc) \<and>
     (\<forall>doc name target w. fst (VisitTarget ob doc name target w) = target)"

text \<open>A property that holds of each observer present in a composed visitor.\<close>

definition each_observer :: "(('doc, 'p, 'd, 's, 't, 'k, 'w) Visitor \<Rightarrow> bool)
    \<Rightarrow> ('doc, 'p, 'd, 's, 't, 'k, 'w) inOrderVisitor \<Rightarrow> bool" where
  "each_observer P v \<longleftrightarrow>
     (case pre v of None \<Rightarrow> True | Some p \<Rightarrow> P p) \<and>
     (case post v of None \<Rightarrow> True | Some q \<Rightarrow> P q)"

section \<open>The order the specification prescribes\<close>

text \<open>
  The walk as the specification describes it, as a list of calls with both observers
  present; \<open>present\<close> then drops the calls of an observer that is nil.
\<close>

definition both :: "event \<Rightarrow> log" where
  "both e = [(PreObserver, e), (PostObserver, e)]"

definition leaves :: "(string \<Rightarrow> event) \<Rightarrow> string list \<Rightarrow> log" where
  "leaves mk names = concat (map (\<lambda>name. both (mk name)) names)"

definition metadata_order :: "string \<Rightarrow> 't Metadata \<Rightarrow> log" where
  "metadata_order kind meta =
     [(PreObserver, MetadataEv kind)]
     @ leaves TargetEv (sort (range_keys (Targets meta)))
     @ [(PostObserver, MetadataEv kind)]"

definition services_order :: "'s Services \<Rightarrow> log" where
  "services_order svcs =
     leaves (\<lambda>name. ServiceEv name True) (sort (range_keys (Public svcs)))
     @ leaves (\<lambda>name. ServiceEv name False) (sort (range_keys (Private svcs)))"

definition stack_order :: "('p, 'd, 's, 't) Stack \<Rightarrow> log" where
  "stack_order stack =
     [(PreObserver, StackEv)]
     @ metadata_order ''Stack'' (Metadata stack)
     @ leaves ParameterEv (sort (range_keys (Parameters stack)))
     @ leaves DependencyEv (sort (range_keys (Dependencies stack)))
     @ services_order (Services stack)
     @ [(PostObserver, StackEv)]"

definition is_present :: "('doc, 'p, 'd, 's, 't, 'k, 'w) inOrderVisitor \<Rightarrow> caller \<Rightarrow> bool" where
  "is_present v c = (case c of PreObserver \<Rightarrow> \<not> Option.is_none (pre v)
                             | PostObserver \<Rightarrow> \<not> Option.is_none (post v))"

definition present :: "('doc, 'p, 'd, 's, 't, 'k, 'w) inOrderVisitor \<Rightarrow> log \<Rightarrow> log" where
  "present v l = filter (\<lambda>(c, e). is_present v c) l"

section \<open>Auxiliary notions for the statements\<close>

text \<open>
  The names for which a given observer was called, in the order of the calls, one
  projection for each mapping of the record graph.
\<close>

fun target_name :: "event \<Rightarrow> string option" where
  "target_name (TargetEv name) = Some name"
| "target_name _ = None"

fun parameter_name :: "event \<Rightarrow> string option" where
  "parameter_name (ParameterEv name) = Some name"
| "parameter_name _ = None"

fun dependency_name :: "event \<Rightarrow> string option" where
  "dependency_name (DependencyEv name) = Some name"
| "dependency_name _ = None"

fun public_name :: "event \<Rightarrow> string option" where
  "public_name (ServiceEv name True) = Some name"
| "public_name _ = None"

fun private_name :: "event \<Rightarrow> string option" where
  "private_name (ServiceEv name False) = Some name"
| "private_name _ = None"

definition seen :: "(event \<Rightarrow> string option) \<Rightarrow> caller \<Rightarrow> log \<Rightarrow> string list" where
  "seen sel c l = List.map_filter (\<lambda>(c', e). if c' = c then sel e else None) l"

text \<open>
  Two stacks whose mappings hold the same entries, listed in a different order: the same
  Go maps, iterated in a different order.
\<close>

definition reordered :: "('p, 'd, 's, 't) Stack \<Rightarrow> ('p, 'd, 's, 't) Stack \<Rightarrow> bool" where
  "reordered stack stack' \<longleftrightarrow>
     mset (Targets (Metadata stack')) = mset (Targets (Metadata stack)) \<and>
     mset (Parameters stack') = mset (Parameters stack) \<and>
     mset (Dependencies stack') = mset (Dependencies stack) \<and>
     mset (Public (Services stack')) = mset (Public (Services stack)) \<and>
     mset (Private (Services stack')) = mset (Private (Services stack))"


text \<open>
  The stack as the loops of a walk find it: after the pre observer's \<^verbatim>\<open>VisitStack\<close> and
  \<^verbatim>\<open>VisitMetadata\<close> have run on it (both can change the mappings before any key is
  collected).
\<close>

definition entered ::
  "('doc, 'p, 'd, 's, 't, 'k, 'w) inOrderVisitor \<Rightarrow> 'doc \<Rightarrow> ('p, 'd, 's, 't) Stack \<Rightarrow> 'w
    \<Rightarrow> ('p, 'd, 's, 't) Stack" where
  "entered v doc stack w =
     (let (stack, w) = hook (pre v) (\<lambda>p. VisitStack p doc) stack w;
          (meta, w) = hook (pre v) (\<lambda>p. VisitMetadata p doc ''Stack'') (Metadata stack) w
      in stack\<lparr>Metadata := meta\<rparr>)"

text \<open>
  For one of the five loops, started on the mapping \<open>m\<close> in the observers' state \<open>w\<close>:
  the state in which the visit of the key \<open>k\<close> is called (the one the visits of the
  smaller keys have left), and the value that this visit hands back. The visit is called
  on what \<open>m\<close> holds at \<open>k\<close> when the loop starts.
\<close>

definition state_before ::
  "(string \<Rightarrow> 'v \<Rightarrow> 'w \<Rightarrow> 'v \<times> 'w) \<Rightarrow> ('v::zero) gomap \<Rightarrow> 'w \<Rightarrow> string \<Rightarrow> 'w" where
  "state_before visit m w k =
     snd (visit_each visit (takeWhile (\<lambda>name. name \<noteq> k) (sort_Strings (range_keys m))) m w)"

definition returned ::
  "(string \<Rightarrow> 'v \<Rightarrow> 'w \<Rightarrow> 'v \<times> 'w) \<Rightarrow> ('v::zero) gomap \<Rightarrow> 'w \<Rightarrow> string \<Rightarrow> 'v" where
  "returned visit m w k = fst (visit k (index m k) (state_before visit m w k))"

text \<open>A stack all of whose mappings have pairwise distinct keys.\<close>

definition wf_stack :: "('p, 'd, 's, 't) Stack \<Rightarrow> bool" where
  "wf_stack stack \<longleftrightarrow>
     wf_map (Targets (Metadata stack)) \<and> wf_map (Parameters stack) \<and>
     wf_map (Dependencies stack) \<and> wf_map (Public (Services stack)) \<and>
     wf_map (Private (Services stack))"

text \<open>
  The observers' state at the start of each of the five loops of a walk, for observers
  whose container methods leave the stack and its metadata as they are (so that the loops
  run on the mappings of the stack the walk was given): the loop over the targets starts
  after the two pre calls, the loop over the parameters after \<^verbatim>\<open>VisitMetadata\<close> has
  returned, and each further loop where the one before it ends.
\<close>

definition targets_entry ::
  "('doc, 'p, 'd, 's, 't, 'k, 'w) inOrderVisitor \<Rightarrow> 'doc \<Rightarrow> ('p, 'd, 's, 't) Stack \<Rightarrow> 'w \<Rightarrow> 'w" where
  "targets_entry v doc stack w =
     snd (hook (pre v) (\<lambda>p. VisitMetadata p doc ''Stack'') (Metadata stack)
            (snd (hook (pre v) (\<lambda>p. VisitStack p doc) stack w)))"

definition parameters_entry ::
  "('doc, 'p, 'd, 's, 't::zero, 'k, 'w) inOrderVisitor \<Rightarrow> 'doc \<Rightarrow> ('p, 'd, 's, 't) Stack \<Rightarrow> 'w \<Rightarrow> 'w" where
  "parameters_entry v doc stack w =
     snd (inOrderVisitor_VisitMetadata v doc ''Stack'' (Metadata stack)
            (snd (hook (pre v) (\<lambda>p. VisitStack p doc) stack w)))"

definition dependencies_entry ::
  "('doc, 'p::zero, 'd, 's, 't::zero, 'k, 'w) inOrderVisitor \<Rightarrow> 'doc \<Rightarrow> ('p, 'd, 's, 't) Stack \<Rightarrow> 'w \<Rightarrow> 'w" where
  "dependencies_entry v doc stack w =
     snd (visit_each (inOrderVisitor_VisitParameter v doc)
            (sort_Strings (range_keys (Parameters stack))) (Parameters stack)
            (parameters_entry v doc stack w))"

definition public_entry ::
  "('doc, 'p::zero, 'd::zero, 's, 't::zero, 'k, 'w) inOrderVisitor \<Rightarrow> 'doc \<Rightarrow> ('p, 'd, 's, 't) Stack \<Rightarrow> 'w \<Rightarrow> 'w" where
  "public_entry v doc stack w =
     snd (visit_each (inOrderVisitor_VisitDependency v doc)
            (sort_Strings (range_keys (Dependencies stack))) (Dependencies stack)
            (dependencies_entry v doc stack w))"

definition private_entry ::
  "('doc, 'p::zero, 'd::zero, 's::zero, 't::zero, 'k, 'w) inOrderVisitor \<Rightarrow> 'doc \<Rightarrow> ('p, 'd, 's, 't) Stack \<Rightarrow> 'w \<Rightarrow> 'w" where
  "private_entry v doc stack w =
     snd (visit_each (\<lambda>name. inOrderVisitor_VisitService v doc name True)
            (sort_Strings (range_keys (Public (Services stack)))) (Public (Services stack))
            (public_entry v doc stack w))"

section \<open>Concrete inputs\<close>

text \<open>
  A stack whose mappings are listed out of order, with numbers for the leaf records, and
  an observer that changes parameters and services and counts its calls in its state.
\<close>

definition ex_stack :: "(nat, nat, nat, nat) Stack" where
  "ex_stack =
     \<lparr>Metadata = \<lparr>Targets = [(''prod'', 1), (''dev'', 2)]\<rparr>,
      Parameters = [(''b'', 2), (''a'', 1), (''c'', 3)],
      Dependencies = [(''net'', 7)],
      Services = \<lparr>Public = [(''z'', 5)], Private = [(''a'', 6)]\<rparr>\<rparr>"

definition bump :: "(unit, nat, nat, nat, nat, unit, nat) Visitor" where
  "bump = idle\<lparr>VisitParameter := (\<lambda>doc name param w. (param + 10, w + 1)),
               VisitService := (\<lambda>doc name public svc w. (svc + w, w + 1))\<rparr>"

text \<open>The same stack with the entries of its mappings in another order.\<close>

definition ex_stack' :: "(nat, nat, nat, nat) Stack" where
  "ex_stack' =
     \<lparr>Metadata = \<lparr>Targets = [(''dev'', 2), (''prod'', 1)]\<rparr>,
      Parameters = [(''c'', 3), (''a'', 1), (''b'', 2)],
      Dependencies = [(''net'', 7)],
      Services = \<lparr>Public = [(''z'', 5)], Private = [(''a'', 6)]\<rparr>\<rparr>"

text \<open>An observer that changes nothing and counts the parameters it is shown.\<close>

definition count :: "(unit, nat, nat, nat, nat, unit, nat) Visitor" where
  "count = idle\<lparr>VisitParameter := (\<lambda>doc name param w. (param, w + 1))\<rparr>"

text \<open>An observer that doubles the parameters and targets it is shown.\<close>

definition double :: "(unit, nat, nat, nat, nat, unit, nat) Visitor" where
  "double = idle\<lparr>VisitParameter := (\<lambda>doc name param w. (param * 2, w)),
                 VisitTarget := (\<lambda>doc name target w. (target * 2, w))\<rparr>"

text \<open>An observer whose \<^verbatim>\<open>VisitStack\<close> adds a parameter to the stack it is handed.\<close>

definition grow :: "(unit, nat, nat, nat, nat, unit, unit) Visitor" where
  "grow = idle\<lparr>VisitStack := (\<lambda>doc stack w.
            (stack\<lparr>Parameters := assign (Parameters stack) ''extra'' 0\<rparr>, w))\<rparr>"

chapter \<open>Lemmas\<close>

section \<open>The order of the keys\<close>

text \<open>
  The order in which \<open>sort_Strings\<close> arranges the keys is the one of Go's \<^verbatim>\<open><\<close> on strings:
  the first byte that differs decides, by its value, and a proper prefix comes first.
\<close>

lemma string_less_bytewise:
  "([] :: string) < b # bs"
  "\<not> (as :: string) < []"
  "(a # as < b # bs) = ((of_char a :: nat) < of_char b \<or> a = b \<and> as < bs)"
  by (simp_all add: less_char_def)

lemma sort_Strings_sorted: "sorted (sort_Strings ks) \<and> mset (sort_Strings ks) = mset ks"
  by (simp add: sort_Strings_def)

lemma sort_Strings_bytes:
  "sort_Strings [''ab'', ''a'', ''B'', '''', ''a0''] = ['''', ''B'', ''a'', ''a0'', ''ab'']"
  by (simp add: sort_Strings_def)

section \<open>The loop over the sorted keys\<close>

lemma range_keys_assign:
  "k \<in> set (range_keys m) \<Longrightarrow> range_keys (assign m k x) = range_keys m"
  by (simp add: range_keys_def assign_def update_keys)

lemma map_of_assign: "map_of (assign m k x) = (map_of m)(k \<mapsto> x)"
  by (simp add: assign_def update_conv')

lemma index_assign: "index (assign m k x) k' = (if k' = k then x else index m k')"
  by (simp add: index_def map_of_assign)

lemma assign_index: "k \<in> set (range_keys m) \<Longrightarrow> assign m k (index m k) = m"
proof -
  assume "k \<in> set (range_keys m)"
  then obtain x where "map_of m k = Some x"
    unfolding range_keys_def by (metis map_of_eq_None_iff not_Some_eq set_map)
  then show ?thesis
    by (simp add: assign_def index_def update_triv)
qed

lemma visit_each_keys:
  "set names \<subseteq> set (range_keys m) \<Longrightarrow> range_keys (fst (visit_each visit names m w)) = range_keys m"
proof (induction names arbitrary: m w)
  case Nil
  show ?case by simp
next
  case (Cons name names)
  then show ?case
    by (simp add: split_beta Let_def range_keys_assign)
qed

lemma visit_each_append:
  "visit_each visit (as @ bs) m w =
     (let (m', w') = visit_each visit as m w in visit_each visit bs m' w')"
  by (induction as arbitrary: m w) (simp_all add: split_beta Let_def)

lemma visit_each_other:
  "k \<notin> set names \<Longrightarrow> map_of (fst (visit_each visit names m w)) k = map_of m k"
  by (induction names arbitrary: m w) (auto simp: split_beta Let_def map_of_assign)

lemma visit_each_index_other:
  "k \<notin> set names \<Longrightarrow> index (fst (visit_each visit names m w)) k = index m k"
  by (simp add: index_def visit_each_other)

lemma visit_each_value:
  assumes "distinct (as @ k # bs)"
  shows "map_of (fst (visit_each visit (as @ k # bs) m w)) k =
           Some (fst (visit k (index m k) (snd (visit_each visit as m w))))"
proof -
  from assms have a: "k \<notin> set as" and b: "k \<notin> set bs" by auto
  obtain m1 w1 where r1: "visit_each visit as m w = (m1, w1)" by (cases "visit_each visit as m w")
  have i: "index m1 k = index m k" using visit_each_index_other [OF a, of visit m w] r1 by simp
  show ?thesis
    by (simp add: visit_each_append r1 split_beta Let_def i visit_each_other [OF b] map_of_assign)
qed

lemma visit_each_read_only:
  assumes "\<And>name x w. fst (visit name x w) = x"
  shows "set names \<subseteq> set (range_keys m) \<Longrightarrow> fst (visit_each visit names m w) = m"
proof (induction names arbitrary: w)
  case Nil
  show ?case by simp
next
  case (Cons name names)
  then show ?case
    by (simp add: split_beta Let_def assms assign_index)
qed

lemma visit_each_recording:
  assumes "\<And>name x w l. tv name x (w, l) = (let (x', w') = visit name x w in (x', (w', l @ ev name)))"
  shows "visit_each tv names m (w, l) =
           (let (m', w') = visit_each visit names m w in (m', (w', l @ concat (map ev names))))"
  by (induction names arbitrary: m w l) (simp_all add: assms split_beta Let_def)

section \<open>A recorded walk is the walk, with its log\<close>

lemma hook_simps [simp]:
  "hook None f r w = (r, w)"
  "hook (Some ob) f r w = f ob r w"
  by (simp_all add: hook_def)

lemma NewInOrderVisitor_sel [simp]:
  "pre (NewInOrderVisitor p q) = p"
  "post (NewInOrderVisitor p q) = q"
  by (simp_all add: NewInOrderVisitor_def)

lemma idle_sel [simp]:
  "Diag idle w = None"
  "VisitStack idle doc stack w = (stack, w)"
  "VisitMetadata idle doc kind meta w = (meta, w)"
  "VisitParameter idle doc name param w = (param, w)"
  "VisitDependency idle doc name dep w = (dep, w)"
  "VisitServices idle doc svcs w = (svcs, w)"
  "VisitService idle doc name public svc w = (svc, w)"
  "VisitTarget idle doc name target w = (target, w)"
  by (simp_all add: idle_def)

lemma recording_sel [simp]:
  "pre (recording v) = map_option (recorder PreObserver) (pre v)"
  "post (recording v) = map_option (recorder PostObserver) (post v)"
  by (simp_all add: recording_def)

lemma recorder_sel [simp]:
  "Diag (recorder c ob) (w, l) = Diag ob w"
  "VisitMetadata (recorder c ob) doc kind meta (w, l) =
     (let (meta', w') = VisitMetadata ob doc kind meta w in (meta', (w', l @ [(c, MetadataEv kind)])))"
  "VisitStack (recorder c ob) doc stack (w, l) =
     (let (stack', w') = VisitStack ob doc stack w in (stack', (w', l @ [(c, StackEv)])))"
  "VisitParameter (recorder c ob) doc name param (w, l) =
     (let (param', w') = VisitParameter ob doc name param w in (param', (w', l @ [(c, ParameterEv name)])))"
  "VisitDependency (recorder c ob) doc name dep (w, l) =
     (let (dep', w') = VisitDependency ob doc name dep w in (dep', (w', l @ [(c, DependencyEv name)])))"
  "VisitService (recorder c ob) doc name public svc (w, l) =
     (let (svc', w') = VisitService ob doc name public svc w in (svc', (w', l @ [(c, ServiceEv name public)])))"
  "VisitTarget (recorder c ob) doc name target (w, l) =
     (let (target', w') = VisitTarget ob doc name target w in (target', (w', l @ [(c, TargetEv name)])))"
  by (simp_all add: recorder_def)

lemma present_append: "present v (a @ b) = present v a @ present v b"
  by (simp add: present_def)

lemma present_Nil [simp]: "present v [] = []"
  by (simp add: present_def)

lemma present_pre:
  "present v [(PreObserver, e)] = (case pre v of None \<Rightarrow> [] | Some _ \<Rightarrow> [(PreObserver, e)])"
  by (simp add: present_def is_present_def Option.is_none_def split: option.splits)

lemma present_post:
  "present v [(PostObserver, e)] = (case post v of None \<Rightarrow> [] | Some _ \<Rightarrow> [(PostObserver, e)])"
  by (simp add: present_def is_present_def Option.is_none_def split: option.splits)

lemma present_both:
  "present v (both e) = present v [(PreObserver, e)] @ present v [(PostObserver, e)]"
  by (simp add: both_def present_def)

lemma present_leaves:
  "present v (leaves mk names) = concat (map (\<lambda>name. present v (both (mk name))) names)"
  by (simp add: leaves_def present_def filter_concat comp_def)

lemma hook_recorder_pre:
  assumes "\<And>ob r w l. m' (recorder PreObserver ob) r (w, l) = (let (r', w') = m ob r w in (r', (w', l @ [(PreObserver, e)])))"
  shows "hook (map_option (recorder PreObserver) (pre v)) m' r (w, l) =
         (let (r', w') = hook (pre v) m r w in (r', (w', l @ present v [(PreObserver, e)])))"
  by (cases "pre v") (simp_all add: assms present_pre)

lemma hook_recorder_post:
  assumes "\<And>ob r w l. m' (recorder PostObserver ob) r (w, l) = (let (r', w') = m ob r w in (r', (w', l @ [(PostObserver, e)])))"
  shows "hook (map_option (recorder PostObserver) (post v)) m' r (w, l) =
         (let (r', w') = hook (post v) m r w in (r', (w', l @ present v [(PostObserver, e)])))"
  by (cases "post v") (simp_all add: assms present_post)

lemma VisitParameter_recording:
  "inOrderVisitor_VisitParameter (recording v) doc name x (w, l) =
     (let (x', w') = inOrderVisitor_VisitParameter v doc name x w
      in (x', (w', l @ present v (both (ParameterEv name)))))"
  unfolding inOrderVisitor_VisitParameter_def present_both
  by (cases "pre v"; cases "post v")
     (simp_all add: present_pre present_post split_beta Let_def)

lemma VisitDependency_recording:
  "inOrderVisitor_VisitDependency (recording v) doc name x (w, l) =
     (let (x', w') = inOrderVisitor_VisitDependency v doc name x w
      in (x', (w', l @ present v (both (DependencyEv name)))))"
  unfolding inOrderVisitor_VisitDependency_def present_both
  by (cases "pre v"; cases "post v")
     (simp_all add: present_pre present_post split_beta Let_def)

lemma VisitService_recording:
  "inOrderVisitor_VisitService (recording v) doc name public x (w, l) =
     (let (x', w') = inOrderVisitor_VisitService v doc name public x w
      in (x', (w', l @ present v (both (ServiceEv name public)))))"
  unfolding inOrderVisitor_VisitService_def present_both
  by (cases "pre v"; cases "post v")
     (simp_all add: present_pre present_post split_beta Let_def)

lemma VisitTarget_recording:
  "inOrderVisitor_VisitTarget (recording v) doc name x (w, l) =
     (let (x', w') = inOrderVisitor_VisitTarget v doc name x w
      in (x', (w', l @ present v (both (TargetEv name)))))"
  unfolding inOrderVisitor_VisitTarget_def present_both
  by (cases "pre v"; cases "post v")
     (simp_all add: present_pre present_post split_beta Let_def)

lemma VisitServices_recording:
  "inOrderVisitor_VisitServices (recording v) doc svcs (w, l) =
     (let (svcs', w') = inOrderVisitor_VisitServices v doc svcs w
      in (svcs', (w', l @ present v (services_order svcs))))"
  unfolding inOrderVisitor_VisitServices_def services_order_def present_append present_leaves
  by (simp add: sort_Strings_def split_beta Let_def
        visit_each_recording [where visit = "\<lambda>name. inOrderVisitor_VisitService v doc name True"
          and ev = "\<lambda>name. present v (both (ServiceEv name True))", OF VisitService_recording]
        visit_each_recording [where visit = "\<lambda>name. inOrderVisitor_VisitService v doc name False"
          and ev = "\<lambda>name. present v (both (ServiceEv name False))", OF VisitService_recording])


lemmas hook_pre_Metadata = hook_recorder_pre
  [where m' = "\<lambda>p. VisitMetadata p doc kind" and m = "\<lambda>p. VisitMetadata p doc kind"
     and e = "MetadataEv kind" for doc kind, simplified]
lemmas hook_post_Metadata = hook_recorder_post
  [where m' = "\<lambda>p. VisitMetadata p doc kind" and m = "\<lambda>p. VisitMetadata p doc kind"
     and e = "MetadataEv kind" for doc kind, simplified]
lemmas hook_pre_Stack = hook_recorder_pre
  [where m' = "\<lambda>p. VisitStack p doc" and m = "\<lambda>p. VisitStack p doc"
     and e = "StackEv" for doc, simplified]
lemmas hook_post_Stack = hook_recorder_post
  [where m' = "\<lambda>p. VisitStack p doc" and m = "\<lambda>p. VisitStack p doc"
     and e = "StackEv" for doc, simplified]

lemma VisitMetadata_recording:
  "inOrderVisitor_VisitMetadata (recording v) doc kind meta (w, l) =
     (let (meta', w') = inOrderVisitor_VisitMetadata v doc kind meta w
      in (meta', (w', l @ present v
            (metadata_order kind (fst (hook (pre v) (\<lambda>p. VisitMetadata p doc kind) meta w))))))"
  unfolding inOrderVisitor_VisitMetadata_def metadata_order_def present_append present_leaves
  by (simp add: sort_Strings_def split_beta Let_def hook_pre_Metadata hook_post_Metadata
        visit_each_recording [where visit = "inOrderVisitor_VisitTarget v doc"
          and ev = "\<lambda>name. present v (both (TargetEv name))", OF VisitTarget_recording])

lemma VisitStack_recording:
  "inOrderVisitor_VisitStack (recording v) doc stack (w, l) =
     (let (stack', w') = inOrderVisitor_VisitStack v doc stack w
      in (stack', (w', l @ present v (stack_order (entered v doc stack w)))))"
  unfolding inOrderVisitor_VisitStack_def stack_order_def entered_def present_append present_leaves
  by (simp add: sort_Strings_def split_beta Let_def hook_pre_Stack hook_post_Stack
        VisitMetadata_recording VisitServices_recording present_append
        visit_each_recording [where visit = "inOrderVisitor_VisitParameter v doc"
          and ev = "\<lambda>name. present v (both (ParameterEv name))", OF VisitParameter_recording]
        visit_each_recording [where visit = "inOrderVisitor_VisitDependency v doc"
          and ev = "\<lambda>name. present v (both (DependencyEv name))", OF VisitDependency_recording])

section \<open>The order of a walk\<close>

lemma entered_leaf_only:
  assumes "each_observer leaf_only v"
  shows "entered v doc stack w = stack"
proof (cases "pre v")
  case None
  then show ?thesis by (simp add: entered_def)
next
  case (Some p)
  then have "leaf_only p" using assms by (simp add: each_observer_def)
  then show ?thesis using Some by (simp add: entered_def leaf_only_def split_beta)
qed

lemma visit_log_eq: "visit_log v doc stack w = present v (stack_order (entered v doc stack w))"
  by (simp add: visit_log_def VisitStack_recording split_beta)

lemma idle_leaf_only: "leaf_only idle"
  by (simp add: leaf_only_def idle_def)

lemma bump_leaf_only: "leaf_only bump"
  by (simp add: leaf_only_def bump_def idle_def)

section \<open>Public services before private services\<close>

lemma services_log_eq: "services_log v doc svcs w = present v (services_order svcs)"
  by (simp add: services_log_def VisitServices_recording split_beta)

section \<open>The sink, and a missing post observer\<close>

lemma present_post_absent:
  "post v = None \<Longrightarrow> pre v = Some p \<Longrightarrow> present v l = filter (\<lambda>(c, e). c = PreObserver) l"
  unfolding present_def is_present_def
  by (rule filter_cong) (auto split: caller.splits)

lemma post_idle_leaves:
  "inOrderVisitor_VisitParameter (NewInOrderVisitor p (Some idle)) = inOrderVisitor_VisitParameter (NewInOrderVisitor p None)"
  "inOrderVisitor_VisitDependency (NewInOrderVisitor p (Some idle)) = inOrderVisitor_VisitDependency (NewInOrderVisitor p None)"
  "inOrderVisitor_VisitService (NewInOrderVisitor p (Some idle)) = inOrderVisitor_VisitService (NewInOrderVisitor p None)"
  "inOrderVisitor_VisitTarget (NewInOrderVisitor p (Some idle)) = inOrderVisitor_VisitTarget (NewInOrderVisitor p None)"
  by (simp_all add: fun_eq_iff inOrderVisitor_VisitParameter_def inOrderVisitor_VisitDependency_def
        inOrderVisitor_VisitService_def inOrderVisitor_VisitTarget_def split_beta)

lemma post_idle_stack:
  "inOrderVisitor_VisitStack (NewInOrderVisitor p (Some idle)) doc stack w =
   inOrderVisitor_VisitStack (NewInOrderVisitor p None) doc stack w"
  by (simp add: inOrderVisitor_VisitStack_def inOrderVisitor_VisitMetadata_def
        inOrderVisitor_VisitServices_def post_idle_leaves split_beta Let_def)

section \<open>Sorted visits, whatever the iteration order\<close>

lemma seen_append: "seen sel c (a @ b) = seen sel c a @ seen sel c b"
  by (simp add: seen_def map_filter_def)

lemma seen_Nil [simp]: "seen sel c [] = []"
  by (simp add: seen_def map_filter_def)

lemma seen_Cons:
  "seen sel c ((c', e) # l) =
     (if c' = c then (case sel e of None \<Rightarrow> [] | Some n \<Rightarrow> [n]) else []) @ seen sel c l"
  by (simp add: seen_def map_filter_def split: option.splits)

lemma seen_present: "is_present v c \<Longrightarrow> seen sel c (present v l) = seen sel c l"
  unfolding seen_def present_def map_filter_def
  by (induction l) (auto)

lemma seen_leaves_hit:
  assumes "\<And>name. sel (mk name) = Some name"
  shows "seen sel c (leaves mk names) = names"
  by (cases c; induction names) (simp_all add: leaves_def both_def seen_def map_filter_def assms)

lemma seen_leaves_miss:
  assumes "\<And>name. sel (mk name) = None"
  shows "seen sel c (leaves mk names) = []"
  by (induction names) (auto simp: leaves_def both_def seen_def map_filter_def assms)


lemma sort_keys_reordered: "mset m' = mset m \<Longrightarrow> sort (range_keys m') = sort (range_keys m)"
proof -
  assume "mset m' = mset m"
  then have "mset (map fst m') = mset (map fst m)" by simp
  then have "mset (sort (map fst m)) = mset (map fst m')" by simp
  then have "sort (map fst m') = sort (map fst m)"
    by (rule properties_for_sort) simp
  then show ?thesis
    by (simp add: range_keys_def)
qed

lemma stack_order_reordered:
  assumes "reordered stack stack'"
  shows "stack_order stack' = stack_order stack"
proof -
  from assms have
    t: "mset (Targets (Metadata stack')) = mset (Targets (Metadata stack))" and
    p: "mset (Parameters stack') = mset (Parameters stack)" and
    d: "mset (Dependencies stack') = mset (Dependencies stack)" and
    pu: "mset (Public (Services stack')) = mset (Public (Services stack))" and
    pr: "mset (Private (Services stack')) = mset (Private (Services stack))"
    unfolding reordered_def by blast+
  show ?thesis
    unfolding stack_order_def metadata_order_def services_order_def
      sort_keys_reordered [OF t] sort_keys_reordered [OF p] sort_keys_reordered [OF d]
      sort_keys_reordered [OF pu] sort_keys_reordered [OF pr]
    by (rule refl)
qed

lemma seen_stack_order:
  "seen target_name c (stack_order stack) = sort (range_keys (Targets (Metadata stack)))"
  "seen parameter_name c (stack_order stack) = sort (range_keys (Parameters stack))"
  "seen dependency_name c (stack_order stack) = sort (range_keys (Dependencies stack))"
  "seen public_name c (stack_order stack) = sort (range_keys (Public (Services stack)))"
  "seen private_name c (stack_order stack) = sort (range_keys (Private (Services stack)))"
  by (simp_all add: stack_order_def metadata_order_def services_order_def seen_append seen_Cons
        seen_leaves_hit seen_leaves_miss)

section \<open>Walks that change nothing\<close>

lemma set_sort_Strings [simp]: "set (sort_Strings ks) = set ks"
  by (simp add: sort_Strings_def)

lemma each_observerD:
  assumes "each_observer P v"
  shows "pre v = Some p \<Longrightarrow> P p" and "post v = Some q \<Longrightarrow> P q"
  using assms by (simp_all add: each_observer_def)

lemma hook_unchanged:
  assumes "\<And>ob. obs = Some ob \<Longrightarrow> fst (m ob r w) = r"
  shows "fst (hook obs m r w) = r"
  using assms by (cases obs) simp_all

lemma read_only_leaf_only: "read_only ob \<Longrightarrow> leaf_only ob"
  by (simp add: read_only_def leaf_only_def)

lemma each_read_only_leaf_only: "each_observer read_only v \<Longrightarrow> each_observer leaf_only v"
  by (auto simp: each_observer_def read_only_leaf_only split: option.splits)

lemma read_only_leaves:
  assumes "each_observer read_only v"
  shows "fst (inOrderVisitor_VisitParameter v doc name p w) = p"
    and "fst (inOrderVisitor_VisitDependency v doc name d w) = d"
    and "fst (inOrderVisitor_VisitService v doc name public s w) = s"
    and "fst (inOrderVisitor_VisitTarget v doc name t w) = t"
  using each_observerD [OF assms]
  by (simp_all add: inOrderVisitor_VisitParameter_def inOrderVisitor_VisitDependency_def
        inOrderVisitor_VisitService_def inOrderVisitor_VisitTarget_def split_beta
        hook_unchanged read_only_def)

lemma read_only_Services:
  assumes "each_observer read_only v"
  shows "fst (inOrderVisitor_VisitServices v doc svcs w) = svcs"
  by (simp add: inOrderVisitor_VisitServices_def split_beta Let_def
        visit_each_read_only read_only_leaves [OF assms])

lemma read_only_Metadata:
  assumes "each_observer read_only v"
  shows "fst (inOrderVisitor_VisitMetadata v doc kind meta w) = meta"
  using each_observerD [OF assms]
  by (simp add: inOrderVisitor_VisitMetadata_def split_beta Let_def
        visit_each_read_only read_only_leaves [OF assms] hook_unchanged read_only_def)

lemma read_only_Stack:
  assumes "each_observer read_only v"
  shows "fst (inOrderVisitor_VisitStack v doc stack w) = stack"
  using each_observerD [OF assms]
  by (simp add: inOrderVisitor_VisitStack_def split_beta Let_def
        visit_each_read_only read_only_leaves [OF assms] read_only_Metadata [OF assms]
        read_only_Services [OF assms] hook_unchanged read_only_def)

lemma count_read_only: "read_only count"
  by (simp add: read_only_def count_def idle_def)

section \<open>What the loops write back\<close>

lemma takeWhile_neq_nth:
  "distinct xs \<Longrightarrow> i < length xs \<Longrightarrow> takeWhile (\<lambda>x. x \<noteq> xs ! i) xs = take i xs"
proof (induction xs arbitrary: i)
  case Nil
  then show ?case by simp
next
  case (Cons x xs)
  then show ?case by (cases i) auto
qed

lemma distinct_sort_keys: "wf_map m \<Longrightarrow> distinct (sort_Strings (range_keys m))"
  by (simp add: wf_map_def sort_Strings_def range_keys_def)

lemma length_sort_keys [simp]: "length (sort_Strings (range_keys m)) = length m"
  by (simp add: sort_Strings_def range_keys_def)

lemma visit_each_prefix:
  assumes wf: "wf_map m" and i: "i < n" and n: "n \<le> length m"
  shows "map_of (fst (visit_each visit (take n (sort_Strings (range_keys m))) m w))
           (sort_Strings (range_keys m) ! i)
         = Some (returned visit m w (sort_Strings (range_keys m) ! i))"
proof -
  let ?ks = "sort_Strings (range_keys m)"
  let ?k = "?ks ! i"
  have d: "distinct ?ks" using wf by (rule distinct_sort_keys)
  have len: "i < length (take n ?ks)" using i n by simp
  have split: "take n ?ks = take i ?ks @ ?k # drop (Suc i) (take n ?ks)"
    using id_take_nth_drop [OF len] i by (simp add: min_def)
  have dt: "distinct (take i ?ks @ ?k # drop (Suc i) (take n ?ks))"
    using d split by (metis distinct_take)
  have tw: "takeWhile (\<lambda>name. name \<noteq> ?k) ?ks = take i ?ks"
    using d i n by (simp add: takeWhile_neq_nth)
  have "map_of (fst (visit_each visit (take i ?ks @ ?k # drop (Suc i) (take n ?ks)) m w)) ?k
        = Some (fst (visit ?k (index m ?k) (snd (visit_each visit (take i ?ks) m w))))"
    using dt by (rule visit_each_value)
  then show ?thesis
    using split by (simp add: returned_def state_before_def tw)
qed

lemma visit_each_returned:
  assumes wf: "wf_map m" and k: "k \<in> set (range_keys m)"
  shows "map_of (fst (visit_each visit (sort_Strings (range_keys m)) m w)) k
         = Some (returned visit m w k)"
proof -
  from k have "k \<in> set (sort_Strings (range_keys m))" by (simp add: sort_Strings_def)
  then obtain i where i: "i < length m" and ki: "sort_Strings (range_keys m) ! i = k"
    by (metis in_set_conv_nth length_sort_keys)
  from visit_each_prefix [OF wf i order_refl, of visit w] ki show ?thesis
    by simp
qed


lemma leaf_only_hooks:
  assumes "each_observer leaf_only v"
  shows "fst (hook (pre v) (\<lambda>p. VisitStack p doc) stack w) = stack"
    and "fst (hook (post v) (\<lambda>p. VisitStack p doc) stack w) = stack"
    and "fst (hook (pre v) (\<lambda>p. VisitMetadata p doc kind) meta w) = meta"
    and "fst (hook (post v) (\<lambda>p. VisitMetadata p doc kind) meta w) = meta"
  using each_observerD [OF assms]
  by (simp_all add: hook_unchanged leaf_only_def)

lemma leaf_only_Metadata:
  assumes "each_observer leaf_only v"
  shows "Targets (fst (inOrderVisitor_VisitMetadata v doc kind meta w)) =
           fst (visit_each (inOrderVisitor_VisitTarget v doc)
                  (sort_Strings (range_keys (Targets meta))) (Targets meta)
                  (snd (hook (pre v) (\<lambda>p. VisitMetadata p doc kind) meta w)))"
  by (simp add: inOrderVisitor_VisitMetadata_def split_beta Let_def leaf_only_hooks [OF assms])

lemma Services_maps:
  "Public (fst (inOrderVisitor_VisitServices v doc svcs w)) =
     fst (visit_each (\<lambda>name. inOrderVisitor_VisitService v doc name True)
            (sort_Strings (range_keys (Public svcs))) (Public svcs) w)"
  "Private (fst (inOrderVisitor_VisitServices v doc svcs w)) =
     fst (visit_each (\<lambda>name. inOrderVisitor_VisitService v doc name False)
            (sort_Strings (range_keys (Private svcs))) (Private svcs)
            (snd (visit_each (\<lambda>name. inOrderVisitor_VisitService v doc name True)
                   (sort_Strings (range_keys (Public svcs))) (Public svcs) w)))"
  by (simp_all add: inOrderVisitor_VisitServices_def split_beta Let_def)

lemma leaf_only_Stack:
  assumes "each_observer leaf_only v"
  shows "Targets (Metadata (fst (inOrderVisitor_VisitStack v doc stack w))) =
           fst (visit_each (inOrderVisitor_VisitTarget v doc)
                  (sort_Strings (range_keys (Targets (Metadata stack)))) (Targets (Metadata stack))
                  (targets_entry v doc stack w))"
    and "Parameters (fst (inOrderVisitor_VisitStack v doc stack w)) =
           fst (visit_each (inOrderVisitor_VisitParameter v doc)
                  (sort_Strings (range_keys (Parameters stack))) (Parameters stack)
                  (parameters_entry v doc stack w))"
    and "Dependencies (fst (inOrderVisitor_VisitStack v doc stack w)) =
           fst (visit_each (inOrderVisitor_VisitDependency v doc)
                  (sort_Strings (range_keys (Dependencies stack))) (Dependencies stack)
                  (dependencies_entry v doc stack w))"
    and "Public (Services (fst (inOrderVisitor_VisitStack v doc stack w))) =
           fst (visit_each (\<lambda>name. inOrderVisitor_VisitService v doc name True)
                  (sort_Strings (range_keys (Public (Services stack)))) (Public (Services stack))
                  (public_entry v doc stack w))"
    and "Private (Services (fst (inOrderVisitor_VisitStack v doc stack w))) =
           fst (visit_each (\<lambda>name. inOrderVisitor_VisitService v doc name False)
                  (sort_Strings (range_keys (Private (Services stack)))) (Private (Services stack))
                  (private_entry v doc stack w))"
  by (simp_all add: inOrderVisitor_VisitStack_def split_beta Let_def leaf_only_hooks [OF assms]
        leaf_only_Metadata [OF assms] Services_maps targets_entry_def parameters_entry_def
        dependencies_entry_def public_entry_def private_entry_def)

lemma double_leaf_only: "leaf_only double"
  by (simp add: leaf_only_def double_def idle_def)

lemma wf_ex_stack: "wf_stack ex_stack"
  by (simp add: wf_stack_def wf_map_def ex_stack_def)

lemmas engine_defs =
  inOrderVisitor_VisitStack_def inOrderVisitor_VisitMetadata_def
  inOrderVisitor_VisitServices_def inOrderVisitor_VisitParameter_def
  inOrderVisitor_VisitDependency_def inOrderVisitor_VisitService_def
  inOrderVisitor_VisitTarget_def sort_Strings_def range_keys_def index_def assign_def

section \<open>Pre and post observer on the same leaf\<close>

lemma both_present_leaves:
  assumes "pre v = Some p" and "post v = Some q"
  shows "inOrderVisitor_VisitParameter v doc name param w =
           (let (param, w) = VisitParameter p doc name param w in VisitParameter q doc name param w)"
    and "inOrderVisitor_VisitDependency v doc name dep w =
           (let (dep, w) = VisitDependency p doc name dep w in VisitDependency q doc name dep w)"
    and "inOrderVisitor_VisitService v doc name public svc w =
           (let (svc, w) = VisitService p doc name public svc w in VisitService q doc name public svc w)"
    and "inOrderVisitor_VisitTarget v doc name target w =
           (let (target, w) = VisitTarget p doc name target w in VisitTarget q doc name target w)"
  using assms
  by (simp_all add: inOrderVisitor_VisitParameter_def inOrderVisitor_VisitDependency_def
        inOrderVisitor_VisitService_def inOrderVisitor_VisitTarget_def)

lemma leaf_only_written:
  assumes "each_observer leaf_only v" and "wf_stack stack"
  shows "k \<in> set (range_keys (Targets (Metadata stack))) \<Longrightarrow>
           map_of (Targets (Metadata (fst (inOrderVisitor_VisitStack v doc stack w)))) k
             = Some (returned (inOrderVisitor_VisitTarget v doc) (Targets (Metadata stack))
                      (targets_entry v doc stack w) k)"
    and "k \<in> set (range_keys (Parameters stack)) \<Longrightarrow>
           map_of (Parameters (fst (inOrderVisitor_VisitStack v doc stack w))) k
             = Some (returned (inOrderVisitor_VisitParameter v doc) (Parameters stack)
                      (parameters_entry v doc stack w) k)"
    and "k \<in> set (range_keys (Dependencies stack)) \<Longrightarrow>
           map_of (Dependencies (fst (inOrderVisitor_VisitStack v doc stack w))) k
             = Some (returned (inOrderVisitor_VisitDependency v doc) (Dependencies stack)
                      (dependencies_entry v doc stack w) k)"
    and "k \<in> set (range_keys (Public (Services stack))) \<Longrightarrow>
           map_of (Public (Services (fst (inOrderVisitor_VisitStack v doc stack w)))) k
             = Some (returned (\<lambda>name. inOrderVisitor_VisitService v doc name True)
                      (Public (Services stack)) (public_entry v doc stack w) k)"
    and "k \<in> set (range_keys (Private (Services stack))) \<Longrightarrow>
           map_of (Private (Services (fst (inOrderVisitor_VisitStack v doc stack w)))) k
             = Some (returned (\<lambda>name. inOrderVisitor_VisitService v doc name False)
                      (Private (Services stack)) (private_entry v doc stack w) k)"
  using assms(2)
  by (simp_all add: wf_stack_def leaf_only_Stack [OF assms(1)] visit_each_returned)

section \<open>The keys of the mappings\<close>

lemma keys_sorted_subset [simp]: "set (sort_Strings (range_keys m)) \<subseteq> set (range_keys m)"
  by simp

lemma loop_keeps_keys:
  "range_keys (fst (visit_each visit (sort_Strings (range_keys m)) m w)) = range_keys m"
  by (rule visit_each_keys) simp

lemma Services_keeps_keys:
  "range_keys (Public (fst (inOrderVisitor_VisitServices v doc svcs w))) = range_keys (Public svcs)"
  "range_keys (Private (fst (inOrderVisitor_VisitServices v doc svcs w))) = range_keys (Private svcs)"
  by (simp_all add: Services_maps loop_keeps_keys)

lemma keeps_keys_hook_Metadata:
  assumes "\<And>ob. obs = Some ob \<Longrightarrow> keeps_keys ob"
  shows "set (range_keys (Targets (fst (hook obs (\<lambda>p. VisitMetadata p doc kind) meta w))))
           = set (range_keys (Targets meta))"
  using assms by (cases obs) (simp_all add: keeps_keys_def)

lemma keeps_keys_hook_Stack:
  assumes "\<And>ob. obs = Some ob \<Longrightarrow> keeps_keys ob"
  shows "set (range_keys (Targets (Metadata (fst (hook obs (\<lambda>p. VisitStack p doc) stack w)))))
           = set (range_keys (Targets (Metadata stack)))"
    and "set (range_keys (Parameters (fst (hook obs (\<lambda>p. VisitStack p doc) stack w))))
           = set (range_keys (Parameters stack))"
    and "set (range_keys (Dependencies (fst (hook obs (\<lambda>p. VisitStack p doc) stack w))))
           = set (range_keys (Dependencies stack))"
    and "set (range_keys (Public (Services (fst (hook obs (\<lambda>p. VisitStack p doc) stack w)))))
           = set (range_keys (Public (Services stack)))"
    and "set (range_keys (Private (Services (fst (hook obs (\<lambda>p. VisitStack p doc) stack w)))))
           = set (range_keys (Private (Services stack)))"
  using assms by (cases obs; simp add: keeps_keys_def Let_def)+

lemma Metadata_keeps_keys:
  assumes "each_observer keeps_keys v"
  shows "set (range_keys (Targets (fst (inOrderVisitor_VisitMetadata v doc kind meta w))))
           = set (range_keys (Targets meta))"
  using each_observerD [OF assms]
  by (simp add: inOrderVisitor_VisitMetadata_def split_beta Let_def keeps_keys_hook_Metadata
        loop_keeps_keys)

lemma leaf_only_keeps_keys: "leaf_only ob \<Longrightarrow> keeps_keys ob"
  by (simp add: leaf_only_def keeps_keys_def)

chapter \<open>The claims\<close>

section \<open>C1: pre and post calls of every method\<close>

text \<open>
  C1: every method of the composed visitor is to call the pre observer's method of the
  same name before the children and the post observer's after them. \<^verbatim>\<open>VisitServices\<close>
  does neither. With both observers present, a walk of a Services value with one public
  service records the two calls for that service and no call of \<^verbatim>\<open>VisitServices\<close>; a
  walk of a whole stack records the pre and post calls of \<^verbatim>\<open>VisitStack\<close> and
  \<^verbatim>\<open>VisitMetadata\<close> around their children, the pre and post call for every leaf, and
  again no call of \<^verbatim>\<open>VisitServices\<close>.
\<close>

theorem services_hooks_not_called:
  "services_log (NewInOrderVisitor (Some idle) (Some idle)) ()
      \<lparr>Public = [(''web'', 0::nat)], Private = []\<rparr> ()
     = [(PreObserver, ServiceEv ''web'' True), (PostObserver, ServiceEv ''web'' True)] \<and>
   visit_log (NewInOrderVisitor (Some idle) (Some idle)) () ex_stack ()
     = [(PreObserver, StackEv),
        (PreObserver, MetadataEv ''Stack''),
        (PreObserver, TargetEv ''dev''), (PostObserver, TargetEv ''dev''),
        (PreObserver, TargetEv ''prod''), (PostObserver, TargetEv ''prod''),
        (PostObserver, MetadataEv ''Stack''),
        (PreObserver, ParameterEv ''a''), (PostObserver, ParameterEv ''a''),
        (PreObserver, ParameterEv ''b''), (PostObserver, ParameterEv ''b''),
        (PreObserver, ParameterEv ''c''), (PostObserver, ParameterEv ''c''),
        (PreObserver, DependencyEv ''net''), (PostObserver, DependencyEv ''net''),
        (PreObserver, ServiceEv ''z'' True), (PostObserver, ServiceEv ''z'' True),
        (PreObserver, ServiceEv ''a'' False), (PostObserver, ServiceEv ''a'' False),
        (PostObserver, StackEv)] \<and>
   (PreObserver, ServicesEv) \<notin> set (visit_log (NewInOrderVisitor (Some idle) (Some idle)) () ex_stack ()) \<and>
   (PostObserver, ServicesEv) \<notin> set (visit_log (NewInOrderVisitor (Some idle) (Some idle)) () ex_stack ())"
proof -
  have e: "entered (NewInOrderVisitor (Some idle) (Some idle)) () ex_stack () = ex_stack"
    by (simp add: entered_def)
  have k: "sort (range_keys (Targets (Metadata ex_stack))) = [''dev'', ''prod'']"
          "sort (range_keys (Parameters ex_stack)) = [''a'', ''b'', ''c'']"
          "sort (range_keys (Dependencies ex_stack)) = [''net'']"
          "sort (range_keys (Public (Services ex_stack))) = [''z'']"
          "sort (range_keys (Private (Services ex_stack))) = [''a'']"
    by (simp_all add: ex_stack_def range_keys_def)
  have s: "services_log (NewInOrderVisitor (Some idle) (Some idle)) ()
      \<lparr>Public = [(''web'', 0::nat)], Private = []\<rparr> ()
     = [(PreObserver, ServiceEv ''web'' True), (PostObserver, ServiceEv ''web'' True)]"
    by (simp add: services_log_eq services_order_def range_keys_def leaves_def both_def present_def
        is_present_def)
  have l: "visit_log (NewInOrderVisitor (Some idle) (Some idle)) () ex_stack ()
     = [(PreObserver, StackEv),
        (PreObserver, MetadataEv ''Stack''),
        (PreObserver, TargetEv ''dev''), (PostObserver, TargetEv ''dev''),
        (PreObserver, TargetEv ''prod''), (PostObserver, TargetEv ''prod''),
        (PostObserver, MetadataEv ''Stack''),
        (PreObserver, ParameterEv ''a''), (PostObserver, ParameterEv ''a''),
        (PreObserver, ParameterEv ''b''), (PostObserver, ParameterEv ''b''),
        (PreObserver, ParameterEv ''c''), (PostObserver, ParameterEv ''c''),
        (PreObserver, DependencyEv ''net''), (PostObserver, DependencyEv ''net''),
        (PreObserver, ServiceEv ''z'' True), (PostObserver, ServiceEv ''z'' True),
        (PreObserver, ServiceEv ''a'' False), (PostObserver, ServiceEv ''a'' False),
        (PostObserver, StackEv)]"
    by (simp add: visit_log_eq e stack_order_def metadata_order_def services_order_def k
          leaves_def both_def present_def is_present_def)
  show ?thesis
    unfolding l s by simp
qed

section \<open>C2: sorted visits, whatever the iteration order\<close>

text \<open>
  C2: for observers that change leaves only, the names for which an observer is called are,
  for each of the five mappings of a stack (targets, parameters, dependencies, public and
  private services), the keys of that mapping in ascending order of the byte-wise
  lexicographic order on strings. A stack that holds the same entries in another iteration
  order gives the same sequence of calls, also from another state of the observers.
\<close>

theorem sorted_visits:
  assumes "each_observer leaf_only v" and "is_present v c" and "reordered stack stack'"
  shows "seen target_name c (visit_log v doc stack w) = sort (range_keys (Targets (Metadata stack))) \<and>
         seen parameter_name c (visit_log v doc stack w) = sort (range_keys (Parameters stack)) \<and>
         seen dependency_name c (visit_log v doc stack w) = sort (range_keys (Dependencies stack)) \<and>
         seen public_name c (visit_log v doc stack w) = sort (range_keys (Public (Services stack))) \<and>
         seen private_name c (visit_log v doc stack w) = sort (range_keys (Private (Services stack))) \<and>
         visit_log v doc stack' w' = visit_log v doc stack w"
proof -
  have l: "visit_log v doc stack w = present v (stack_order stack)"
    by (simp add: visit_log_eq entered_leaf_only [OF assms(1)])
  have l': "visit_log v doc stack' w' = present v (stack_order stack)"
    by (simp add: visit_log_eq entered_leaf_only [OF assms(1)] stack_order_reordered [OF assms(3)])
  show ?thesis
    unfolding l l' seen_present [OF assms(2)] seen_stack_order by simp
qed

theorem sorted_visits_witness:
  "each_observer leaf_only (NewInOrderVisitor (Some bump) None) \<and>
   is_present (NewInOrderVisitor (Some bump) None) PreObserver \<and>
   reordered ex_stack ex_stack' \<and>
   seen parameter_name PreObserver (visit_log (NewInOrderVisitor (Some bump) None) () ex_stack 0)
     = [''a'', ''b'', ''c''] \<and>
   seen target_name PreObserver (visit_log (NewInOrderVisitor (Some bump) None) () ex_stack 0)
     = [''dev'', ''prod''] \<and>
   visit_log (NewInOrderVisitor (Some bump) None) () ex_stack' 4
     = visit_log (NewInOrderVisitor (Some bump) None) () ex_stack 0"
proof -
  have h1: "each_observer leaf_only (NewInOrderVisitor (Some bump) None)"
    by (simp add: each_observer_def bump_leaf_only)
  have h2: "is_present (NewInOrderVisitor (Some bump) None) PreObserver"
    by (simp add: is_present_def)
  have h3: "reordered ex_stack ex_stack'"
    by (simp add: reordered_def ex_stack_def ex_stack'_def)
  have k: "sort (range_keys (Parameters ex_stack)) = [''a'', ''b'', ''c'']"
          "sort (range_keys (Targets (Metadata ex_stack))) = [''dev'', ''prod'']"
    by (simp_all add: ex_stack_def range_keys_def)
  show ?thesis
    using h1 h2 h3 sorted_visits [OF h1 h2 h3, of "()" 0 4]
    by (simp add: k)
qed

section \<open>C3: public services before private services\<close>



section \<open>C4: every visited value is written back\<close>

text \<open>
  C4: the value a visit hands back is stored at the key of the entry before the loop
  goes on. For each of the loops: once the loop has dealt with the first \<open>n\<close> keys, the
  mapping holds, at each of these keys, the value the visit of that key returned (for
  \<open>n = i + 1\<close> this is the state right after the visit of the \<open>i\<close>-th key), and no later
  step changes it. So after a walk of a well-formed stack, with observers that change
  leaves only, each of the five mappings holds at every key the value that the visit of
  that key returned.
\<close>

theorem write_back:
  assumes "each_observer leaf_only v" and "wf_stack stack"
  shows
    "(\<forall>visit (m :: ('x::zero) gomap) (w' :: 'w) n i. wf_map m \<and> i < n \<and> n \<le> length m \<longrightarrow>
        map_of (fst (visit_each visit (take n (sort_Strings (range_keys m))) m w'))
               (sort_Strings (range_keys m) ! i)
          = Some (returned visit m w' (sort_Strings (range_keys m) ! i))) \<and>
     (\<forall>k \<in> set (range_keys (Targets (Metadata stack))).
        map_of (Targets (Metadata (fst (inOrderVisitor_VisitStack v doc stack w)))) k
          = Some (returned (inOrderVisitor_VisitTarget v doc) (Targets (Metadata stack))
                    (targets_entry v doc stack w) k)) \<and>
     (\<forall>k \<in> set (range_keys (Parameters stack)).
        map_of (Parameters (fst (inOrderVisitor_VisitStack v doc stack w))) k
          = Some (returned (inOrderVisitor_VisitParameter v doc) (Parameters stack)
                    (parameters_entry v doc stack w) k)) \<and>
     (\<forall>k \<in> set (range_keys (Dependencies stack)).
        map_of (Dependencies (fst (inOrderVisitor_VisitStack v doc stack w))) k
          = Some (returned (inOrderVisitor_VisitDependency v doc) (Dependencies stack)
                    (dependencies_entry v doc stack w) k)) \<and>
     (\<forall>k \<in> set (range_keys (Public (Services stack))).
        map_of (Public (Services (fst (inOrderVisitor_VisitStack v doc stack w)))) k
          = Some (returned (\<lambda>name. inOrderVisitor_VisitService v doc name True)
                    (Public (Services stack)) (public_entry v doc stack w) k)) \<and>
     (\<forall>k \<in> set (range_keys (Private (Services stack))).
        map_of (Private (Services (fst (inOrderVisitor_VisitStack v doc stack w)))) k
          = Some (returned (\<lambda>name. inOrderVisitor_VisitService v doc name False)
                    (Private (Services stack)) (private_entry v doc stack w) k))"
  using assms(2)
  by (simp add: wf_stack_def leaf_only_Stack [OF assms(1)] visit_each_returned visit_each_prefix)

theorem write_back_witness:
  "each_observer leaf_only (NewInOrderVisitor (Some bump) None) \<and> wf_stack ex_stack \<and>
   ''c'' \<in> set (range_keys (Parameters ex_stack)) \<and>
   map_of (Parameters (fst (inOrderVisitor_VisitStack (NewInOrderVisitor (Some bump) None) () ex_stack 0))) ''c''
     = Some 13 \<and>
   ''a'' \<in> set (range_keys (Private (Services ex_stack))) \<and>
   map_of (Private (Services (fst (inOrderVisitor_VisitStack (NewInOrderVisitor (Some bump) None) () ex_stack 0)))) ''a''
     = Some 10 \<and>
   map_of (fst (visit_each (inOrderVisitor_VisitParameter (NewInOrderVisitor (Some bump) None) ())
                  (take 1 (sort_Strings (range_keys (Parameters ex_stack)))) (Parameters ex_stack) 0))
          ''a''
     = Some 11"
proof -
  let ?v = "NewInOrderVisitor (Some bump) None"
  have h1: "each_observer leaf_only ?v"
    by (simp add: each_observer_def bump_leaf_only)
  note wb = write_back [OF h1 wf_ex_stack, of "()" 0, where ?'x = nat]
  have c: "''c'' \<in> set (range_keys (Parameters ex_stack))"
    and a: "''a'' \<in> set (range_keys (Private (Services ex_stack)))"
    by (simp_all add: ex_stack_def range_keys_def)
  have rc: "returned (inOrderVisitor_VisitParameter ?v ()) (Parameters ex_stack)
              (parameters_entry ?v () ex_stack 0) ''c'' = 13"
    by (simp add: returned_def state_before_def parameters_entry_def engine_defs ex_stack_def
          bump_def idle_def)
  have ra: "returned (\<lambda>name. inOrderVisitor_VisitService ?v () name False) (Private (Services ex_stack))
              (private_entry ?v () ex_stack 0) ''a'' = 10"
    by (simp add: returned_def state_before_def parameters_entry_def dependencies_entry_def
          public_entry_def private_entry_def engine_defs ex_stack_def bump_def idle_def)
  have k0: "sort_Strings (range_keys (Parameters ex_stack)) ! 0 = ''a''"
    by (simp add: sort_Strings_def range_keys_def ex_stack_def)
  have r1: "returned (inOrderVisitor_VisitParameter ?v ()) (Parameters ex_stack) 0 ''a'' = 11"
    by (simp add: returned_def state_before_def engine_defs ex_stack_def bump_def idle_def)
  have g: "wf_map (Parameters ex_stack) \<and> (0::nat) < 1 \<and> 1 \<le> length (Parameters ex_stack)"
    by (simp add: wf_map_def ex_stack_def)
  note step = wb [THEN conjunct1, rule_format, OF g, of "inOrderVisitor_VisitParameter ?v ()" 0,
                  unfolded k0]
  note par = wb [THEN conjunct2, THEN conjunct2, THEN conjunct1, THEN bspec, OF c]
  note priv = wb [THEN conjunct2, THEN conjunct2, THEN conjunct2, THEN conjunct2, THEN conjunct2,
                  THEN bspec, OF a]
  show ?thesis
    unfolding step par priv rc ra r1
    using h1 wf_ex_stack c a by simp
qed

section \<open>C5: the order of a walk\<close>

text \<open>
  C5: a walk entered at \<^verbatim>\<open>VisitStack\<close> calls, in this order: the stack itself; its
  metadata with the kind tag \<open>''Stack''\<close>, whose targets follow in sorted key order; the
  parameters in sorted key order; the dependencies in sorted key order; the services,
  public ones first. This holds for all observers that change leaves only (their state is
  arbitrary); the calls of an observer that is nil are missing from the list. Recording
  the calls does not change the walk: stack and state come out as without the log.
\<close>

theorem walk_order:
  assumes "each_observer leaf_only v"
  shows "visit_log v doc stack w =
    present v
      ([(PreObserver, StackEv), (PreObserver, MetadataEv ''Stack'')]
       @ leaves TargetEv (sort (range_keys (Targets (Metadata stack))))
       @ [(PostObserver, MetadataEv ''Stack'')]
       @ leaves ParameterEv (sort (range_keys (Parameters stack)))
       @ leaves DependencyEv (sort (range_keys (Dependencies stack)))
       @ leaves (\<lambda>name. ServiceEv name True) (sort (range_keys (Public (Services stack))))
       @ leaves (\<lambda>name. ServiceEv name False) (sort (range_keys (Private (Services stack))))
       @ [(PostObserver, StackEv)]) \<and>
    inOrderVisitor_VisitStack (recording v) doc stack (w, []) =
      (fst (inOrderVisitor_VisitStack v doc stack w),
       snd (inOrderVisitor_VisitStack v doc stack w),
       visit_log v doc stack w)"
  by (simp add: visit_log_eq entered_leaf_only [OF assms] stack_order_def metadata_order_def
        services_order_def VisitStack_recording split_beta)

theorem walk_order_witness:
  "each_observer leaf_only (NewInOrderVisitor (Some bump) None) \<and>
   visit_log (NewInOrderVisitor (Some bump) None) () ex_stack 0 =
     [(PreObserver, StackEv), (PreObserver, MetadataEv ''Stack''),
      (PreObserver, TargetEv ''dev''), (PreObserver, TargetEv ''prod''),
      (PreObserver, ParameterEv ''a''), (PreObserver, ParameterEv ''b''),
      (PreObserver, ParameterEv ''c''), (PreObserver, DependencyEv ''net''),
      (PreObserver, ServiceEv ''z'' True), (PreObserver, ServiceEv ''a'' False)]"
proof -
  have h: "each_observer leaf_only (NewInOrderVisitor (Some bump) None)"
    by (simp add: each_observer_def NewInOrderVisitor_def bump_leaf_only)
  show ?thesis
    using h walk_order [OF h, of "()" ex_stack 0]
    by (simp add: ex_stack_def range_keys_def leaves_def both_def present_def is_present_def
          NewInOrderVisitor_def)
qed

section \<open>C6: walks that change nothing\<close>

text \<open>
  C6: with observers none of whose methods changes the record it is handed, a walk
  returns the stack it was given, and so does a second walk that follows it (started on
  what the first one returned, in the state the first one left). The second walk makes
  the same calls in the same order: the log of the two walks is the log of the first,
  twice.
\<close>

theorem no_mutation_twice:
  assumes "each_observer read_only v"
  shows "let r1 = inOrderVisitor_VisitStack (recording v) doc stack (w, []);
             r2 = inOrderVisitor_VisitStack (recording v) doc (fst r1) (snd r1)
         in fst r1 = stack \<and> fst r2 = stack \<and>
            snd (snd r2) = snd (snd r1) @ snd (snd r1) \<and>
            fst (inOrderVisitor_VisitStack v doc stack w) = stack"
  by (simp add: Let_def VisitStack_recording split_beta read_only_Stack [OF assms]
        entered_leaf_only [OF each_read_only_leaf_only [OF assms]])

theorem no_mutation_twice_witness:
  "each_observer read_only (NewInOrderVisitor (Some count) None) \<and>
   fst (inOrderVisitor_VisitStack (NewInOrderVisitor (Some count) None) () ex_stack 0) = ex_stack \<and>
   inOrderVisitor_VisitStack (NewInOrderVisitor (Some count) None) () ex_stack 0 = (ex_stack, 3) \<and>
   inOrderVisitor_VisitStack (NewInOrderVisitor (Some count) None) () ex_stack 3 = (ex_stack, 6)"
proof -
  have h: "each_observer read_only (NewInOrderVisitor (Some count) None)"
    by (simp add: each_observer_def count_read_only)
  have r: "inOrderVisitor_VisitStack (NewInOrderVisitor (Some count) None) () ex_stack w = (ex_stack, w + 3)" for w
    by (simp add: inOrderVisitor_VisitStack_def inOrderVisitor_VisitMetadata_def
          inOrderVisitor_VisitServices_def inOrderVisitor_VisitParameter_def
          inOrderVisitor_VisitDependency_def inOrderVisitor_VisitService_def
          inOrderVisitor_VisitTarget_def ex_stack_def count_def idle_def sort_Strings_def
          range_keys_def index_def assign_def)
  from no_mutation_twice [OF h, of "()" ex_stack 0]
  have "fst (inOrderVisitor_VisitStack (NewInOrderVisitor (Some count) None) () ex_stack 0) = ex_stack"
    unfolding Let_def by (elim conjE)
  with h show ?thesis
    by (simp add: r)
qed

section \<open>C7: the sink, and a missing post observer\<close>

text \<open>
  C7: \<^verbatim>\<open>Diag\<close> answers with the pre observer's sink when there is a pre observer, with
  the post observer's sink when there is only a post observer, and with nil when there is
  neither. A composed visitor without post observer walks the whole stack: it makes
  exactly the pre observer's calls of the full order, and it returns the stack and the
  state that a walk with a do-nothing post observer returns.
\<close>

theorem diag_and_absent_post:
  "inOrderVisitor_Diag (NewInOrderVisitor (Some p) q) w = Diag p w \<and>
   inOrderVisitor_Diag (NewInOrderVisitor None (Some p)) w = Diag p w \<and>
   inOrderVisitor_Diag (NewInOrderVisitor None None) w = (None :: 'k option) \<and>
   visit_log (NewInOrderVisitor (Some p) None) doc stack w =
     filter (\<lambda>(c, e). c = PreObserver)
       (stack_order (entered (NewInOrderVisitor (Some p) None) doc stack w)) \<and>
   inOrderVisitor_VisitStack (NewInOrderVisitor (Some p) None) doc stack w =
     inOrderVisitor_VisitStack (NewInOrderVisitor (Some p) (Some idle)) doc stack w"
  by (simp add: inOrderVisitor_Diag_def visit_log_eq post_idle_stack
        present_post_absent [where p = p])

section \<open>C8: the architecture tables are inverse to each other\<close>

text \<open>
  C8: the two tables are mutually inverse. Every architecture tag has a name, and looking
  that name up in \<open>ArchMap\<close> gives the tag back; each of the five names (the empty
  string, aws, gcp, azure, vmware) has a tag, and looking that tag up in \<open>ArchNames\<close>
  gives the name back; these five names are all the keys of \<open>ArchMap\<close>, and the empty
  string stands for \<open>NoArch\<close>.
\<close>

theorem arch_tables_inverse:
  "(\<forall>a. ArchMap_at (ArchNames_at a) = a \<and> Option.bind (ArchNames a) ArchMap = Some a) \<and>
   (\<forall>n \<in> {'''', ''aws'', ''gcp'', ''azure'', ''vmware''}.
      ArchNames_at (ArchMap_at n) = n \<and> Option.bind (ArchMap n) ArchNames = Some n) \<and>
   dom ArchMap = {'''', ''aws'', ''gcp'', ''azure'', ''vmware''} \<and>
   ArchMap_at '''' = NoArch \<and> ArchNames_at NoArch = ''''"
proof -
  note defs = ArchNames_at_def ArchMap_at_def ArchNames_def ArchMap_def noArch_def awsArch_def
    gcpArch_def azureArch_def vmwareArch_def
  have tags: "ArchMap_at (ArchNames_at a) = a \<and> Option.bind (ArchNames a) ArchMap = Some a" for a
    by (cases a) (simp_all add: defs)
  have names: "\<forall>n \<in> {'''', ''aws'', ''gcp'', ''azure'', ''vmware''}.
      ArchNames_at (ArchMap_at n) = n \<and> Option.bind (ArchMap n) ArchNames = Some n"
    by (simp add: defs)
  have keys: "dom ArchMap = {'''', ''aws'', ''gcp'', ''azure'', ''vmware''}"
    unfolding ArchMap_def dom_map_of_conv_image_fst
    by (simp add: noArch_def awsArch_def gcpArch_def azureArch_def vmwareArch_def)
  have none: "ArchMap_at '''' = NoArch \<and> ArchNames_at NoArch = ''''"
    by (simp add: defs)
  from tags names keys none show ?thesis by blast
qed

theorem arch_tables_inverse_witness:
  "''azure'' \<in> {'''', ''aws'', ''gcp'', ''azure'', ''vmware''} \<and>
   ArchNames_at (ArchMap_at ''azure'') = ''azure'' \<and>
   ArchMap_at (ArchNames_at VMWareArch) = VMWareArch"
  using arch_tables_inverse by simp

section \<open>C9: pre and post observer on the same leaf\<close>

text \<open>
  C9: in a leaf visit the post observer is called on the record as the pre observer has
  left it, and in the state the pre observer has left. What the loop then stores at the
  key is the record as the post observer has left it: after a walk of a well-formed stack
  (observers changing leaves only), each mapping holds at every key \<open>k\<close> the result of the
  post observer's call on the result of the pre observer's call on the value the mapping
  held at \<open>k\<close>.
\<close>

theorem post_sees_pre:
  assumes "pre v = Some p" and "post v = Some q" and "leaf_only p" and "leaf_only q"
    and "wf_stack stack"
  shows
    "inOrderVisitor_VisitParameter v doc name param w' =
       (let (param, w1) = VisitParameter p doc name param w' in VisitParameter q doc name param w1) \<and>
     inOrderVisitor_VisitDependency v doc name dep w' =
       (let (dep, w1) = VisitDependency p doc name dep w' in VisitDependency q doc name dep w1) \<and>
     inOrderVisitor_VisitService v doc name public svc w' =
       (let (svc, w1) = VisitService p doc name public svc w' in VisitService q doc name public svc w1) \<and>
     inOrderVisitor_VisitTarget v doc name target w' =
       (let (target, w1) = VisitTarget p doc name target w' in VisitTarget q doc name target w1) \<and>
     (\<forall>k \<in> set (range_keys (Targets (Metadata stack))).
        let x = index (Targets (Metadata stack)) k;
            wk = state_before (inOrderVisitor_VisitTarget v doc) (Targets (Metadata stack))
                   (targets_entry v doc stack w) k;
            (x1, w1) = VisitTarget p doc k x wk
        in map_of (Targets (Metadata (fst (inOrderVisitor_VisitStack v doc stack w)))) k
             = Some (fst (VisitTarget q doc k x1 w1))) \<and>
     (\<forall>k \<in> set (range_keys (Parameters stack)).
        let x = index (Parameters stack) k;
            wk = state_before (inOrderVisitor_VisitParameter v doc) (Parameters stack)
                   (parameters_entry v doc stack w) k;
            (x1, w1) = VisitParameter p doc k x wk
        in map_of (Parameters (fst (inOrderVisitor_VisitStack v doc stack w))) k
             = Some (fst (VisitParameter q doc k x1 w1))) \<and>
     (\<forall>k \<in> set (range_keys (Dependencies stack)).
        let x = index (Dependencies stack) k;
            wk = state_before (inOrderVisitor_VisitDependency v doc) (Dependencies stack)
                   (dependencies_entry v doc stack w) k;
            (x1, w1) = VisitDependency p doc k x wk
        in map_of (Dependencies (fst (inOrderVisitor_VisitStack v doc stack w))) k
             = Some (fst (VisitDependency q doc k x1 w1))) \<and>
     (\<forall>k \<in> set (range_keys (Public (Services stack))).
        let x = index (Public (Services stack)) k;
            wk = state_before (\<lambda>name. inOrderVisitor_VisitService v doc name True)
                   (Public (Services stack)) (public_entry v doc stack w) k;
            (x1, w1) = VisitService p doc k True x wk
        in map_of (Public (Services (fst (inOrderVisitor_VisitStack v doc stack w)))) k
             = Some (fst (VisitService q doc k True x1 w1))) \<and>
     (\<forall>k \<in> set (range_keys (Private (Services stack))).
        let x = index (Private (Services stack)) k;
            wk = state_before (\<lambda>name. inOrderVisitor_VisitService v doc name False)
                   (Private (Services stack)) (private_entry v doc stack w) k;
            (x1, w1) = VisitService p doc k False x wk
        in map_of (Private (Services (fst (inOrderVisitor_VisitStack v doc stack w)))) k
             = Some (fst (VisitService q doc k False x1 w1)))"
proof -
  have lo: "each_observer leaf_only v"
    using assms(1-4) by (simp add: each_observer_def)
  note leaves = both_present_leaves [OF assms(1,2)]
  show ?thesis
    by (simp add: leaf_only_written [OF lo assms(5)] returned_def leaves split_beta Let_def)
qed


theorem post_sees_pre_witness:
  "pre (NewInOrderVisitor (Some bump) (Some double)) = Some bump \<and>
   post (NewInOrderVisitor (Some bump) (Some double)) = Some double \<and>
   leaf_only bump \<and> leaf_only double \<and> wf_stack ex_stack \<and>
   ''a'' \<in> set (range_keys (Parameters ex_stack)) \<and>
   inOrderVisitor_VisitParameter (NewInOrderVisitor (Some bump) (Some double)) () ''a'' 1 0 = (22, 1) \<and>
   map_of (Parameters (fst (inOrderVisitor_VisitStack (NewInOrderVisitor (Some bump) (Some double)) ()
                              ex_stack 0))) ''a''
     = Some 22"
proof -
  let ?v = "NewInOrderVisitor (Some bump) (Some double)"
  have h1: "pre ?v = Some bump" and h2: "post ?v = Some double"
    by simp_all
  have a: "''a'' \<in> set (range_keys (Parameters ex_stack))"
    by (simp add: ex_stack_def range_keys_def)
  note t = post_sees_pre [OF h1 h2 bump_leaf_only double_leaf_only wf_ex_stack,
             where doc = "()" and w = 0 and name = "''a''" and param = 1 and w' = 0]
  note leaf = t [THEN conjunct1]
  note par = t [THEN conjunct2, THEN conjunct2, THEN conjunct2, THEN conjunct2, THEN conjunct2,
                THEN conjunct1, THEN bspec, OF a]
  have sb: "state_before (inOrderVisitor_VisitParameter ?v ()) (Parameters ex_stack)
              (parameters_entry ?v () ex_stack 0) ''a'' = 0"
    by (simp add: state_before_def parameters_entry_def engine_defs ex_stack_def
          bump_def double_def idle_def)
  have ix: "index (Parameters ex_stack) ''a'' = 1"
    by (simp add: index_def ex_stack_def)
  from leaf have l: "inOrderVisitor_VisitParameter ?v () ''a'' 1 0 = (22, 1)"
    by (simp add: bump_def double_def idle_def)
  from par have m: "map_of (Parameters (fst (inOrderVisitor_VisitStack ?v () ex_stack 0))) ''a'' = Some 22"
    by (simp add: sb ix bump_def double_def idle_def)
  from l m show ?thesis
    using a bump_leaf_only double_leaf_only wf_ex_stack by simp
qed

section \<open>C10: the keys of the mappings\<close>

text \<open>
  C10, as stated, fails: an observer changes only the record it is handed and still adds
  a key. \<^verbatim>\<open>VisitStack\<close> hands the pre observer the stack itself, and \<open>grow\<close> stores a
  parameter under a new name there; the walk then visits that key and keeps it.
\<close>

theorem key_added_by_observer:
  "range_keys (Parameters ex_stack) = [''b'', ''a'', ''c''] \<and>
   range_keys (Parameters (fst (inOrderVisitor_VisitStack (NewInOrderVisitor (Some grow) None) ()
                                  ex_stack ())))
     = [''b'', ''a'', ''c'', ''extra''] \<and>
   ''extra'' \<in> set (range_keys (Parameters (fst (inOrderVisitor_VisitStack
                        (NewInOrderVisitor (Some grow) None) () ex_stack ())))) \<and>
   ''extra'' \<notin> set (range_keys (Parameters ex_stack))"
  by (simp add: engine_defs ex_stack_def grow_def idle_def)

text \<open>
  C10, amended: provided the observers' methods for the containers (\<^verbatim>\<open>VisitMetadata\<close>,
  \<^verbatim>\<open>VisitStack\<close>) do not add or remove keys themselves, a walk leaves the key set of
  each of the five mappings as it was. (The leaf methods get a copy of the entry and
  cannot reach the mapping.) The loops only overwrite the values of keys that exist.
\<close>

theorem keys_preserved:
  assumes "each_observer keeps_keys v"
  shows
    "set (range_keys (Targets (Metadata (fst (inOrderVisitor_VisitStack v doc stack w)))))
       = set (range_keys (Targets (Metadata stack))) \<and>
     set (range_keys (Parameters (fst (inOrderVisitor_VisitStack v doc stack w))))
       = set (range_keys (Parameters stack)) \<and>
     set (range_keys (Dependencies (fst (inOrderVisitor_VisitStack v doc stack w))))
       = set (range_keys (Dependencies stack)) \<and>
     set (range_keys (Public (Services (fst (inOrderVisitor_VisitStack v doc stack w)))))
       = set (range_keys (Public (Services stack))) \<and>
     set (range_keys (Private (Services (fst (inOrderVisitor_VisitStack v doc stack w)))))
       = set (range_keys (Private (Services stack)))"
  using each_observerD [OF assms]
  by (simp add: inOrderVisitor_VisitStack_def split_beta Let_def keeps_keys_hook_Stack
        Metadata_keeps_keys [OF assms] Services_keeps_keys loop_keeps_keys)

theorem keys_preserved_witness:
  "each_observer keeps_keys (NewInOrderVisitor (Some bump) (Some double)) \<and>
   set (range_keys (Parameters (fst (inOrderVisitor_VisitStack
          (NewInOrderVisitor (Some bump) (Some double)) () ex_stack 0))))
     = {''a'', ''b'', ''c''} \<and>
   Parameters (fst (inOrderVisitor_VisitStack (NewInOrderVisitor (Some bump) (Some double)) () ex_stack 0))
     = [(''b'', 24), (''a'', 22), (''c'', 26)]"
proof -
  have h: "each_observer keeps_keys (NewInOrderVisitor (Some bump) (Some double))"
    by (simp add: each_observer_def leaf_only_keeps_keys bump_leaf_only double_leaf_only)
  have "set (range_keys (Parameters ex_stack)) = {''a'', ''b'', ''c''}"
    by (auto simp: ex_stack_def range_keys_def)
  moreover have
    "Parameters (fst (inOrderVisitor_VisitStack (NewInOrderVisitor (Some bump) (Some double)) () ex_stack 0))
       = [(''b'', 24), (''a'', 22), (''c'', 26)]"
    by (simp add: engine_defs ex_stack_def bump_def double_def idle_def)
  ultimately show ?thesis
    using h keys_preserved [OF h, of "()" ex_stack 0] by simp
qed

end
